theory Spec2Isabelle
  imports Complex_Main "HOL-Library.Log_Nat"
begin

section \<open>Python values and exceptions\<close>

text \<open>
  The values that \<^verbatim>\<open>json.loads\<close> produces: \<^verbatim>\<open>None\<close>, booleans, integers, (finite)
  floats, strings, lists and dicts. A dict is an association list with distinct keys in
  insertion order. \<open>JNull\<close> is Python's \<^verbatim>\<open>None\<close>, so it is also what
  \<^verbatim>\<open>generate_batch\<close> returns when every attempt has failed.
\<close>

datatype json =
    JNull
  | JBool bool
  | JInt int
  | JFloat rat
  | JStr string
  | JArr "json list"
  | JObj "(string \<times> json) list"

text \<open>The exceptions that the modelled code can meet; all of them derive from \<^verbatim>\<open>Exception\<close>.\<close>

datatype py_exn =
    APIError
  | IndexError
  | AttributeError
  | JSONDecodeError
  | ZeroDivisionError
  | EOFError
  | OverflowError
  | TypeError
  | KeyError string

section \<open>Strings\<close>

text \<open>
  A \<open>char\<close> stands for a code point below 256. \<^verbatim>\<open>str.isspace\<close> holds there for
  U+0009..U+000D, U+001C..U+0020, U+0085 and U+00A0; \<^verbatim>\<open>str.lower\<close> moves A..Z and
  U+00C0..U+00DE (without U+00D7) up by 32.
\<close>

definition is_space :: "char \<Rightarrow> bool" where
  "is_space c =
     (let n = (of_char c :: nat)
      in (9 \<le> n \<and> n \<le> 13) \<or> (28 \<le> n \<and> n \<le> 32) \<or> n = 133 \<or> n = 160)"

definition lower_char :: "char \<Rightarrow> char" where
  "lower_char c =
     (let n = (of_char c :: nat)
      in if (65 \<le> n \<and> n \<le> 90) \<or> (192 \<le> n \<and> n \<le> 222 \<and> n \<noteq> 215)
         then char_of (n + 32) else c)"

definition lower :: "string \<Rightarrow> string" where
  "lower s = map lower_char s"

definition strip :: "string \<Rightarrow> string" where
  "strip s = rev (dropWhile is_space (rev (dropWhile is_space s)))"

text \<open>
  \<^verbatim>\<open>s.replace(old, new)\<close>: the occurrences of \<open>old\<close> are replaced from the left,
  without overlap. An empty \<open>old\<close> matches before every character and at the end.
\<close>

function replace_from :: "string \<Rightarrow> string \<Rightarrow> string \<Rightarrow> string" where
  "replace_from old new s =
     (if old = [] \<or> s = [] then s
      else if take (length old) s = old
           then new @ replace_from old new (drop (length old) s)
           else hd s # replace_from old new (tl s))"
  by pat_completeness auto
termination
  by (relation "measure (\<lambda>(old, new, s). length s)") auto

declare replace_from.simps [simp del]

definition replace :: "string \<Rightarrow> string \<Rightarrow> string \<Rightarrow> string" where
  "replace s old new =
     (if old = [] then new @ concat (map (\<lambda>c. c # new) s) else replace_from old new s)"

section \<open>Floats\<close>

text \<open>
  A Python float is an IEEE double: a number with a mantissa of 53 bits. The result of
  an operation is the exact result rounded to the nearest such number, a tie going to
  the even mantissa. A normal double is kept here as the rational number it denotes.
  \<open>floor_log2\<close> is the binary exponent of a positive rational, found from the bit
  lengths of its numerator and denominator.
\<close>

definition floor_log2 :: "rat \<Rightarrow> int" where
  "floor_log2 q =
     (let (a, b) = quotient_of q; k = bitlen a - bitlen b
      in if 2 powi k \<le> q then k else k - 1)"

definition round_half_even :: "rat \<Rightarrow> int" where
  "round_half_even x =
     (let f = \<lfloor>x\<rfloor>; r = x - of_int f
      in if r < 1 / 2 then f else if 1 / 2 < r then f + 1 else if even f then f else f + 1)"

definition round_double :: "rat \<Rightarrow> rat" where
  "round_double q =
     (if q = 0 then 0
      else let e = floor_log2 \<bar>q\<bar> - 52
           in of_int (round_half_even (q / 2 powi e)) * 2 powi e)"

text \<open>
  The conversion of an \<^verbatim>\<open>int\<close> to a float: the nearest double, and \<^verbatim>\<open>OverflowError\<close>
  when that lies beyond the largest one.
\<close>

definition float_of_nat :: "nat \<Rightarrow> py_exn + rat" where
  "float_of_nat n =
     (let x = round_double (of_nat n)
      in if 2 ^ 1024 \<le> x then Inl OverflowError else Inr x)"

section \<open>Configuration\<close>

text \<open>
  The module constants \<^verbatim>\<open>NUM_RECORDS_TO_GENERATE\<close>, \<^verbatim>\<open>BATCH_SIZE\<close>, \<^verbatim>\<open>RPM_LIMIT\<close> and
  the local constant \<^verbatim>\<open>MIN_RECORDS\<close> of \<^verbatim>\<open>main\<close>, gathered in one record so that
  properties can be stated for every setting; \<open>default_config\<close> holds the values of the
  source. All four are counts.
\<close>

record config =
  num_records_to_generate :: nat
  batch_size :: nat
  rpm_limit :: nat
  min_records :: nat

definition default_config :: config where
  "default_config =
     \<lparr>num_records_to_generate = 3000, batch_size = 10, rpm_limit = 5, min_records = 3000\<rparr>"

definition OUTPUT_RM_FILE :: string where
  "OUTPUT_RM_FILE = ''reward_model_dataset.json''"

definition OUTPUT_SFT_FILE :: string where
  "OUTPUT_SFT_FILE = ''sft_dataset.json''"

definition categories :: "string list" where
  "categories = [''Good Question'', ''Factual Error'', ''Poor Logic'', ''Trivial / Low-IQ'']"

section \<open>The outside world\<close>

text \<open>
  What the program cannot decide is read from an environment: the outcome of the n-th
  request to the chat endpoint (an exception, or a response whose choices carry a
  content that may be \<^verbatim>\<open>None\<close>), the result of \<^verbatim>\<open>json.loads\<close> on a text (\<open>None\<close>
  when it raises), the index that the n-th \<^verbatim>\<open>random.choice\<close> draws, and the line that
  \<^verbatim>\<open>input\<close> reads (\<open>None\<close> at end of input).
\<close>

datatype api_outcome = ApiRaises | ApiResponse "string option list"

record env =
  api :: "nat \<Rightarrow> api_outcome"
  json_loads :: "string \<Rightarrow> json option"
  rng :: "nat \<Rightarrow> nat"
  stdin_line :: "string option"

text \<open>
  The effects are recorded in a world: the requests sent and choices drawn so far, the
  trace of observable actions, and the files on disk (a file holds the value that
  \<^verbatim>\<open>json.dump\<close> wrote into it). Console output is not recorded.
\<close>

datatype event = Choice string | Request nat string | Sleep rat

record world =
  api_calls :: nat
  rng_calls :: nat
  trace :: "event list"
  files :: "string \<Rightarrow> json option"

definition sleep :: "rat \<Rightarrow> world \<Rightarrow> world" where
  "sleep d w = w\<lparr>trace := trace w @ [Sleep d]\<rparr>"

text \<open>\<^verbatim>\<open>random.choice\<close>; the list it is given, \<open>categories\<close>, is never empty.\<close>

definition random_choice :: "env \<Rightarrow> string list \<Rightarrow> world \<Rightarrow> string \<times> world" where
  "random_choice e xs w =
     (let x = xs ! (rng e (rng_calls w) mod length xs)
      in (x, w\<lparr>rng_calls := Suc (rng_calls w), trace := trace w @ [Choice x]\<rparr>))"

definition write_file :: "string \<Rightarrow> json \<Rightarrow> world \<Rightarrow> world" where
  "write_file name v w = w\<lparr>files := (files w)(name \<mapsto> v)\<rparr>"

section \<open>generate_batch\<close>

text \<open>
  Lines 99 to 104: the first choice's content is stripped, the code-fence markers are
  removed, the text is stripped again and parsed. Every step that raises in Python is
  an \<open>Inl\<close> here.
\<close>

definition clean_response :: "string \<Rightarrow> string" where
  "clean_response content =
     strip (replace (replace (strip content) ''```json'' '''') ''```'' '''')"

definition parse_response :: "env \<Rightarrow> api_outcome \<Rightarrow> py_exn + json" where
  "parse_response e out =
     (case out of
        ApiRaises \<Rightarrow> Inl APIError
      | ApiResponse choices \<Rightarrow>
          (case choices of
             [] \<Rightarrow> Inl IndexError
           | c # _ \<Rightarrow>
               (case c of
                  None \<Rightarrow> Inl AttributeError
                | Some content \<Rightarrow>
                    (case json_loads e (clean_response content) of
                       None \<Rightarrow> Inl JSONDecodeError
                     | Some v \<Rightarrow> Inr v))))"

text \<open>The body of the \<^verbatim>\<open>try\<close> block: one request, then the parse of its response.\<close>

definition request_batch :: "nat \<Rightarrow> env \<Rightarrow> string \<Rightarrow> world \<Rightarrow> (py_exn + json) \<times> world" where
  "request_batch bs e focus w =
     (parse_response e (api e (api_calls w)),
      w\<lparr>api_calls := Suc (api_calls w), trace := trace w @ [Request bs focus]\<rparr>)"

text \<open>
  The loop \<^verbatim>\<open>for attempt in range(max_retries)\<close>: a result is returned at once, every
  exception is caught, and the five seconds are slept unless the attempt was the last.
\<close>

function retry_loop :: "nat \<Rightarrow> env \<Rightarrow> string \<Rightarrow> nat \<Rightarrow> nat \<Rightarrow> world \<Rightarrow> json \<times> world" where
  "retry_loop bs e focus max_retries attempt w =
     (if attempt < max_retries then
        (case request_batch bs e focus w of
           (Inr v, w') \<Rightarrow> (v, w')
         | (Inl err, w') \<Rightarrow>
             retry_loop bs e focus max_retries (Suc attempt)
               (if int attempt < int max_retries - 1 then sleep 5 w' else w'))
      else (JNull, w))"
  by pat_completeness auto
termination
  by (relation "measure (\<lambda>(bs, e, focus, max_retries, attempt, w). max_retries - attempt)") auto

declare retry_loop.simps [simp del]

definition generate_batch :: "nat \<Rightarrow> env \<Rightarrow> string \<Rightarrow> nat \<Rightarrow> world \<Rightarrow> json \<times> world" where
  "generate_batch bs e focus max_retries w = retry_loop bs e focus max_retries 0 w"

section \<open>main\<close>

record run_state =
  all_records :: "json list"
  successful_batches :: nat
  failed_batches :: nat
  world :: world

fun truthy :: "json \<Rightarrow> bool" where
  "truthy JNull = False"
| "truthy (JBool b) = b"
| "truthy (JInt i) = (i \<noteq> 0)"
| "truthy (JFloat x) = (x \<noteq> 0)"
| "truthy (JStr s) = (s \<noteq> [])"
| "truthy (JArr xs) = (xs \<noteq> [])"
| "truthy (JObj kvs) = (kvs \<noteq> [])"

fun isinstance_list :: "json \<Rightarrow> bool" where
  "isinstance_list (JArr xs) = True"
| "isinstance_list _ = False"

fun list_items :: "json \<Rightarrow> json list" where
  "list_items (JArr xs) = xs"
| "list_items _ = []"

text \<open>
  The test of line 142. Python evaluates \<^verbatim>\<open>len(batch)\<close> only for a list, so
  \<open>list_items\<close> is read only where the value is a list.
\<close>

definition batch_accepted :: "json \<Rightarrow> bool" where
  "batch_accepted batch =
     (truthy batch \<and> isinstance_list batch \<and> 0 < length (list_items batch))"

text \<open>One pass through the body of the loop of lines 136 to 150.\<close>

definition iteration :: "nat \<Rightarrow> env \<Rightarrow> rat \<Rightarrow> run_state \<Rightarrow> run_state" where
  "iteration bs e delay_between_requests st =
     (let (focus, w1) = random_choice e categories (world st);
          (batch, w2) = generate_batch bs e focus 3 w1;
          st' = (if batch_accepted batch
                 then st\<lparr>all_records := all_records st @ list_items batch,
                         successful_batches := successful_batches st + 1\<rparr>
                 else st\<lparr>failed_batches := failed_batches st + 1\<rparr>)
      in st'\<lparr>world := sleep delay_between_requests w2\<rparr>)"

text \<open>The state after the first \<open>n\<close> passes of the loop.\<close>

fun accumulate :: "nat \<Rightarrow> env \<Rightarrow> rat \<Rightarrow> nat \<Rightarrow> run_state \<Rightarrow> run_state" where
  "accumulate bs e d 0 st = st"
| "accumulate bs e d (Suc n) st = iteration bs e d (accumulate bs e d n st)"

definition total_iterations :: "config \<Rightarrow> nat" where
  "total_iterations cfg = num_records_to_generate cfg div batch_size cfg"

text \<open>
  Line 119, \<^verbatim>\<open>60.0 / RPM_LIMIT\<close>: the limit is converted to a float, a zero divisor
  raises, and the quotient is rounded. A divisor that is a double and at least 1 keeps
  the quotient within the normal doubles, so that rounding the mantissa is all that
  happens.
\<close>

definition delay_between_requests :: "config \<Rightarrow> py_exn + rat" where
  "delay_between_requests cfg =
     (case float_of_nat (rpm_limit cfg) of
        Inl err \<Rightarrow> Inl err
      | Inr y \<Rightarrow> if y = 0 then Inl ZeroDivisionError else Inr (round_double (60 / y)))"

definition initial_state :: "world \<Rightarrow> run_state" where
  "initial_state w =
     \<lparr>all_records = [], successful_batches = 0, failed_batches = 0, world = w\<rparr>"

text \<open>
  Lines 117 to 150: the two divisions (each can raise, before any request is sent) and
  the loop.
\<close>

definition run_accumulator :: "config \<Rightarrow> env \<Rightarrow> world \<Rightarrow> py_exn + run_state" where
  "run_accumulator cfg e w =
     (if batch_size cfg = 0 then Inl ZeroDivisionError
      else case delay_between_requests cfg of
             Inl err \<Rightarrow> Inl err
           | Inr d \<Rightarrow>
               Inr (accumulate (batch_size cfg) e d (total_iterations cfg) (initial_state w)))"

text \<open>Subscription \<^verbatim>\<open>item[key]\<close> with a string key.\<close>

fun subscript :: "json \<Rightarrow> string \<Rightarrow> py_exn + json" where
  "subscript (JObj kvs) k = (case map_of kvs k of None \<Rightarrow> Inl (KeyError k) | Some v \<Rightarrow> Inr v)"
| "subscript _ k = Inl TypeError"

definition sft_entry :: "json \<Rightarrow> py_exn + json" where
  "sft_entry item =
     (case subscript item ''prompt'' of
        Inl err \<Rightarrow> Inl err
      | Inr p \<Rightarrow>
          (case subscript item ''chosen'' of
             Inl err \<Rightarrow> Inl err
           | Inr c \<Rightarrow> Inr (JObj [(''prompt'', p), (''response'', c)])))"

text \<open>The list comprehension of line 180; it stops at the first item that raises.\<close>

fun sft_dataset :: "json list \<Rightarrow> py_exn + json list" where
  "sft_dataset [] = Inr []"
| "sft_dataset (item # rest) =
     (case sft_entry item of
        Inl err \<Rightarrow> Inl err
      | Inr x \<Rightarrow>
          (case sft_dataset rest of
             Inl err \<Rightarrow> Inl err
           | Inr xs \<Rightarrow> Inr (x # xs)))"

text \<open>Lines 175 to 182: the first file is written before the second view is built.\<close>

definition save_datasets :: "json list \<Rightarrow> world \<Rightarrow> (py_exn + unit) \<times> world" where
  "save_datasets records w =
     (let w1 = write_file OUTPUT_RM_FILE (JArr records) w
      in case sft_dataset records of
           Inl err \<Rightarrow> (Inl err, w1)
         | Inr sft \<Rightarrow> (Inr (), write_file OUTPUT_SFT_FILE (JArr sft) w1))"

text \<open>
  Lines 159 to 182: below the minimum the answer read from the terminal decides; only
  the answer \<^verbatim>\<open>y\<close> (after lower-casing and stripping) lets the run go on to save.
\<close>

definition finish :: "config \<Rightarrow> env \<Rightarrow> run_state \<Rightarrow> (py_exn + unit) \<times> world" where
  "finish cfg e st =
     (if length (all_records st) < min_records cfg then
        (case stdin_line e of
           None \<Rightarrow> (Inl EOFError, world st)
         | Some line \<Rightarrow>
             (let response = strip (lower line)
              in if response \<noteq> ''y'' then (Inr (), world st)
                 else save_datasets (all_records st) (world st)))
      else save_datasets (all_records st) (world st))"

definition main :: "config \<Rightarrow> env \<Rightarrow> world \<Rightarrow> (py_exn + unit) \<times> world" where
  "main cfg e w =
     (case run_accumulator cfg e w of
        Inl err \<Rightarrow> (Inl err, w)
      | Inr st \<Rightarrow> finish cfg e st)"

section \<open>Example environments\<close>

text \<open>
  A finite part of \<^verbatim>\<open>json.loads\<close>: the five texts below parse as Python parses them,
  and \<^verbatim>\<open>oops\<close>, the only other text that the examples use, is no JSON.
\<close>

definition sample_loads :: "string \<Rightarrow> json option" where
  "sample_loads s =
     (if s = ''[1]'' then Some (JArr [JInt 1])
      else if s = ''[]'' then Some (JArr [])
      else if s = ''[{}]'' then Some (JArr [JObj []])
      else if s = ''{}'' then Some (JObj [])
      else if s = ''null'' then Some JNull
      else None)"

text \<open>An endpoint that answers every request with the same content.\<close>

definition constant_env :: "string \<Rightarrow> string option \<Rightarrow> env" where
  "constant_env content answer =
     \<lparr>api = (\<lambda>n. ApiResponse [Some content]), json_loads = sample_loads,
      rng = (\<lambda>n. n), stdin_line = answer\<rparr>"

text \<open>An endpoint whose first \<open>k\<close> requests raise and whose later ones answer \<^verbatim>\<open>[1]\<close>.\<close>

definition flaky_env :: "nat \<Rightarrow> env" where
  "flaky_env k =
     \<lparr>api = (\<lambda>n. if n < k then ApiRaises else ApiResponse [Some ''[1]'']),
      json_loads = sample_loads, rng = (\<lambda>n. n), stdin_line = None\<rparr>"

text \<open>
  An endpoint that answers the n-th request with the n-th content of a list, and on
  which the requests beyond the list raise.
\<close>

definition scripted_env :: "string list \<Rightarrow> env" where
  "scripted_env contents =
     \<lparr>api = (\<lambda>n. if n < length contents then ApiResponse [Some (contents ! n)] else ApiRaises),
      json_loads = sample_loads, rng = (\<lambda>n. n), stdin_line = None\<rparr>"

text \<open>An endpoint on which every request raises.\<close>

definition failing_env :: env where
  "failing_env =
     \<lparr>api = (\<lambda>n. ApiRaises), json_loads = sample_loads, rng = (\<lambda>n. n), stdin_line = None\<rparr>"

definition empty_world :: world where
  "empty_world = \<lparr>api_calls = 0, rng_calls = 0, trace = [], files = Map.empty\<rparr>"

text \<open>A record of the shape of the example object in the master prompt.\<close>

definition sample_record :: json where
  "sample_record =
     JObj [(''category'', JStr ''Factual Error''),
           (''prompt'', JStr ''Did Vikings wear horned helmets in battle?''),
           (''chosen'', JStr ''Absolutely not.''),
           (''rejected'', JStr ''That is a common misconception.'')]"

section \<open>Reference descriptions\<close>

text \<open>An attempt fails when its request, the access to its content or the parse raises.\<close>

definition attempt_fails :: "env \<Rightarrow> nat \<Rightarrow> bool" where
  "attempt_fails e n = isl (parse_response e (api e n))"

text \<open>
  The value parsed in the first attempt that does not fail, among \<open>m\<close> requests
  numbered from \<open>c\<close>. It can be any value, \<open>JNull\<close> included.
\<close>

fun first_parsed :: "env \<Rightarrow> nat \<Rightarrow> nat \<Rightarrow> json option" where
  "first_parsed e c 0 = None"
| "first_parsed e c (Suc m) =
     (case parse_response e (api e c) of
        Inr v \<Rightarrow> Some v
      | Inl err \<Rightarrow> first_parsed e (Suc c) m)"

text \<open>
  The shape that the specification demands of a record and of a batch: an object whose
  four fields hold non-empty text, and an array of such objects.
\<close>

definition record_fields :: "string list" where
  "record_fields = [''category'', ''prompt'', ''chosen'', ''rejected'']"

fun nonempty_text :: "json option \<Rightarrow> bool" where
  "nonempty_text (Some (JStr s)) = (s \<noteq> [])"
| "nonempty_text _ = False"

fun valid_record :: "json \<Rightarrow> bool" where
  "valid_record (JObj kvs) = list_all (\<lambda>k. nonempty_text (map_of kvs k)) record_fields"
| "valid_record _ = False"

fun valid_batch :: "json \<Rightarrow> bool" where
  "valid_batch (JArr xs) = list_all valid_record xs"
| "valid_batch _ = False"

text \<open>The value that \<open>generate_batch\<close> returns in the pass of the loop that starts in \<open>st\<close>.\<close>

definition iteration_batch :: "nat \<Rightarrow> env \<Rightarrow> run_state \<Rightarrow> json" where
  "iteration_batch bs e st =
     (let (focus, w1) = random_choice e categories (world st)
      in fst (generate_batch bs e focus 3 w1))"

text \<open>The confirmation is withheld: no line can be read, or the answer is not \<^verbatim>\<open>y\<close>.\<close>

definition confirmation_declined :: "env \<Rightarrow> bool" where
  "confirmation_declined e =
     (case stdin_line e of None \<Rightarrow> True | Some line \<Rightarrow> strip (lower line) \<noteq> ''y'')"

text \<open>The test mode that the source keeps in a comment: twenty records instead of 3000.\<close>

definition test_config :: config where
  "test_config = default_config\<lparr>num_records_to_generate := 20\<rparr>"


section \<open>Rounding\<close>

lemma floor_log2_bounds:
  assumes "0 < q"
  shows "2 powi floor_log2 q \<le> q \<and> q < 2 powi (floor_log2 q + 1)"
proof -
  obtain a b where ab: "quotient_of q = (a, b)" by (cases "quotient_of q")
  then have b: "0 < b" and q: "q = of_int a / of_int b"
    using quotient_of_denom_pos quotient_of_div by blast+
  with assms have a: "0 < a"
    by (simp add: zero_less_divide_iff)
  let ?k = "bitlen a - bitlen b"
  from bitlen_bounds [OF a] have a1: "2 ^ nat (bitlen a - 1) \<le> a" and a2: "a < 2 ^ nat (bitlen a)" by auto
  from bitlen_bounds [OF b] have b1: "2 ^ nat (bitlen b - 1) \<le> b" and b2: "b < 2 ^ nat (bitlen b)" by auto
  have la: "0 < bitlen a"
  proof (rule ccontr)
    assume "\<not> 0 < bitlen a"
    then have "nat (bitlen a) = 0" by simp
    with a2 a show False by simp
  qed
  have lb: "0 < bitlen b"
  proof (rule ccontr)
    assume "\<not> 0 < bitlen b"
    then have "nat (bitlen b) = 0" by simp
    with b2 b show False by simp
  qed
  have ra1: "(2::rat) powi (bitlen a - 1) \<le> of_int a"
  proof -
    have "(of_int (2 ^ nat (bitlen a - 1)) :: rat) \<le> of_int a" using a1 of_int_le_iff by blast
    then show ?thesis using la by (simp add: power_int_def)
  qed
  have ra2: "of_int a < (2::rat) powi (bitlen a)"
  proof -
    have "(of_int a :: rat) < of_int (2 ^ nat (bitlen a))" using a2 of_int_less_iff by blast
    then show ?thesis using la by (simp add: power_int_def)
  qed
  have rb1: "(2::rat) powi (bitlen b - 1) \<le> of_int b"
  proof -
    have "(of_int (2 ^ nat (bitlen b - 1)) :: rat) \<le> of_int b" using b1 of_int_le_iff by blast
    then show ?thesis using lb by (simp add: power_int_def)
  qed
  have rb2: "of_int b < (2::rat) powi (bitlen b)"
  proof -
    have "(of_int b :: rat) < of_int (2 ^ nat (bitlen b))" using b2 of_int_less_iff by blast
    then show ?thesis using lb by (simp add: power_int_def)
  qed
  have bpos: "(0::rat) < of_int b" using b by simp
  have upper: "q < 2 powi (?k + 1)"
  proof -
    have "of_int a < (2::rat) powi (bitlen a)" by (rule ra2)
    also have "\<dots> = 2 powi (?k + 1) * 2 powi (bitlen b - 1)"
      by (simp add: power_int_add [symmetric])
    also have "\<dots> \<le> 2 powi (?k + 1) * of_int b"
      using rb1 by (simp add: mult_left_mono)
    finally show ?thesis using bpos by (simp add: q pos_divide_less_eq)
  qed
  have lower: "2 powi (?k - 1) < q"
  proof -
    have "2 powi (?k - 1) * of_int b < 2 powi (?k - 1) * (2::rat) powi (bitlen b)"
      using rb2 by (simp add: mult_strict_left_mono)
    also have "\<dots> = 2 powi (bitlen a - 1)"
      by (simp add: power_int_add [symmetric])
    also have "\<dots> \<le> of_int a" by (rule ra1)
    finally show ?thesis using bpos by (simp add: q pos_less_divide_eq)
  qed
  show ?thesis
  proof (cases "2 powi ?k \<le> q")
    case True
    then have "floor_log2 q = ?k" by (simp add: floor_log2_def ab)
    with True upper show ?thesis by simp
  next
    case False
    then have "floor_log2 q = ?k - 1" by (simp add: floor_log2_def ab)
    with False lower show ?thesis by simp
  qed
qed


lemma round_half_even_of_int: "round_half_even (of_int z) = z"
  by (simp add: round_half_even_def)


lemma round_double_of_nat:
  assumes "n < 2 ^ 53"
  shows "round_double (of_nat n) = of_nat n"
proof (cases "n = 0")
  case True
  then show ?thesis by (simp add: round_double_def)
next
  case False
  let ?q = "of_nat n :: rat"
  have q: "0 < ?q" using False by simp
  let ?fl = "floor_log2 ?q"
  have lt: "?q < 2 powi 53"
  proof -
    have "?q < of_nat (2 ^ 53)" using assms of_nat_less_iff by blast
    then show ?thesis by simp
  qed
  have fl: "?fl < 53"
  proof (rule ccontr)
    assume "\<not> ?fl < 53"
    then have "(2::rat) powi 53 \<le> 2 powi ?fl"
      by (intro power_int_increasing) simp_all
    with floor_log2_bounds [OF q] lt show False by simp
  qed
  define d where "d = nat (52 - ?fl)"
  have e: "?fl - 52 = - int d" using fl by (simp add: d_def)
  have pw: "(2::rat) powi (?fl - 52) = 1 / 2 ^ d"
    by (simp add: e power_int_minus_divide)
  have "?q / 2 powi (?fl - 52) = of_int (int n * 2 ^ d)"
    by (simp add: pw)
  then have "round_half_even (?q / 2 powi (?fl - 52)) = int n * 2 ^ d"
    by (simp only: round_half_even_of_int)
  then have "round_double ?q = of_int (int n * 2 ^ d) * (1 / 2 ^ d)"
    using False by (simp add: round_double_def Let_def pw abs_of_nonneg)
  then show ?thesis by simp
qed

lemma float_of_nat_exact:
  assumes "n < 2 ^ 53"
  shows "float_of_nat n = Inr (of_nat n)"
proof -
  have "(of_nat n :: rat) < of_nat (2 ^ 53)" using assms of_nat_less_iff by blast
  also have "\<dots> < 2 ^ 1024" by simp
  finally show ?thesis
    by (simp add: float_of_nat_def round_double_of_nat [OF assms])
qed

lemma delay_exact_divisor:
  assumes "0 < rpm_limit cfg" and "rpm_limit cfg < 2 ^ 53"
  shows "delay_between_requests cfg = Inr (round_double (60 / of_nat (rpm_limit cfg)))"
  using assms by (simp add: delay_between_requests_def float_of_nat_exact)

lemma delay_default: "delay_between_requests default_config = Inr 12"
proof -
  have "round_double (60 / of_nat 5) = 12" by code_simp
  then show ?thesis
    using delay_exact_divisor [of default_config] by (simp add: default_config_def)
qed

lemma delay_test: "delay_between_requests test_config = Inr 12"
proof -
  have "round_double (60 / of_nat 5) = 12" by code_simp
  then show ?thesis
    using delay_exact_divisor [of test_config] by (simp add: test_config_def default_config_def)
qed

section \<open>The retry loop\<close>

lemma retry_loop_done:
  "max_retries \<le> attempt \<Longrightarrow> retry_loop bs e focus max_retries attempt w = (JNull, w)"
  by (simp add: retry_loop.simps)

lemma retry_loop_success:
  assumes "attempt < max_retries" and "parse_response e (api e (api_calls w)) = Inr v"
  shows "retry_loop bs e focus max_retries attempt w =
           (v, w\<lparr>api_calls := Suc (api_calls w), trace := trace w @ [Request bs focus]\<rparr>)"
  using assms by (subst retry_loop.simps) (simp add: request_batch_def)

lemma retry_loop_failure:
  assumes "attempt < max_retries" and "attempt_fails e (api_calls w)"
  shows "retry_loop bs e focus max_retries attempt w =
           retry_loop bs e focus max_retries (Suc attempt)
             (if Suc attempt < max_retries
              then w\<lparr>api_calls := Suc (api_calls w),
                     trace := trace w @ [Request bs focus, Sleep 5]\<rparr>
              else w\<lparr>api_calls := Suc (api_calls w), trace := trace w @ [Request bs focus]\<rparr>)"
proof -
  from assms(2) obtain err where "parse_response e (api e (api_calls w)) = Inl err"
    by (auto simp: attempt_fails_def isl_def)
  moreover have "(int attempt < int max_retries - 1) = (Suc attempt < max_retries)"
    by linarith
  ultimately show ?thesis
    using assms(1) by (subst retry_loop.simps) (simp add: request_batch_def sleep_def)
qed

lemma retry_loop_frame:
  "files (snd (retry_loop bs e focus m a w)) = files w \<and>
   rng_calls (snd (retry_loop bs e focus m a w)) = rng_calls w"
proof (induction bs e focus m a w rule: retry_loop.induct)
  case (1 bs e focus m a w)
  show ?case
  proof (cases "a < m")
    case False
    then show ?thesis by (simp add: retry_loop_done)
  next
    case True
    show ?thesis
    proof (cases "parse_response e (api e (api_calls w))")
      case (Inr v)
      with True show ?thesis by (simp add: retry_loop_success)
    next
      case (Inl err)
      with True 1 show ?thesis
        by (subst (1 2) retry_loop.simps) (simp add: request_batch_def sleep_def)
    qed
  qed
qed

lemma retry_loop_after_failures:
  "attempt + k < max_retries \<Longrightarrow>
   (\<forall>j<k. attempt_fails e (api_calls w + j)) \<Longrightarrow>
   parse_response e (api e (api_calls w + k)) = Inr v \<Longrightarrow>
   retry_loop bs e focus max_retries attempt w =
     (v, w\<lparr>api_calls := api_calls w + (k + 1),
           trace := trace w @ concat (replicate k [Request bs focus, Sleep 5])
                      @ [Request bs focus]\<rparr>)"
proof (induction k arbitrary: attempt w)
  case 0
  then show ?case by (simp add: retry_loop_success)
next
  case (Suc k)
  let ?w = "w\<lparr>api_calls := Suc (api_calls w), trace := trace w @ [Request bs focus, Sleep 5]\<rparr>"
  from Suc.prems have fails: "attempt_fails e (api_calls w)" and lt: "attempt < max_retries"
    and nxt: "Suc attempt < max_retries"
    by auto
  have step: "retry_loop bs e focus max_retries attempt w =
                retry_loop bs e focus max_retries (Suc attempt) ?w"
    using retry_loop_failure [OF lt fails] nxt by simp
  have "retry_loop bs e focus max_retries (Suc attempt) ?w =
          (v, ?w\<lparr>api_calls := api_calls ?w + (k + 1),
                trace := trace ?w @ concat (replicate k [Request bs focus, Sleep 5])
                           @ [Request bs focus]\<rparr>)"
  proof (rule Suc.IH)
    show "Suc attempt + k < max_retries" using Suc.prems by simp
    show "\<forall>j<k. attempt_fails e (api_calls ?w + j)"
      using Suc.prems(2) by (auto dest: spec [where x = "Suc j" for j])
    show "parse_response e (api e (api_calls ?w + k)) = Inr v"
      using Suc.prems(3) by simp
  qed
  with step show ?case by simp
qed

lemma retry_loop_exhausted:
  "attempt < max_retries \<Longrightarrow>
   (\<forall>j<max_retries - attempt. attempt_fails e (api_calls w + j)) \<Longrightarrow>
   retry_loop bs e focus max_retries attempt w =
     (JNull, w\<lparr>api_calls := api_calls w + (max_retries - attempt),
               trace := trace w
                  @ concat (replicate (max_retries - attempt - 1) [Request bs focus, Sleep 5])
                  @ [Request bs focus]\<rparr>)"
proof (induction "max_retries - attempt" arbitrary: attempt w)
  case 0
  then show ?case by simp
next
  case (Suc n)
  from Suc.prems have fails: "attempt_fails e (api_calls w)"
    by (auto dest: spec [where x = 0])
  show ?case
  proof (cases "Suc attempt < max_retries")
    case False
    with Suc.prems have last: "max_retries = Suc attempt" by simp
    show ?thesis
      using retry_loop_failure [OF Suc.prems(1) fails] last
      by (simp add: retry_loop_done)
  next
    case True
    let ?w = "w\<lparr>api_calls := Suc (api_calls w), trace := trace w @ [Request bs focus, Sleep 5]\<rparr>"
    have step: "retry_loop bs e focus max_retries attempt w =
                  retry_loop bs e focus max_retries (Suc attempt) ?w"
      using retry_loop_failure [OF Suc.prems(1) fails] True by simp
    have "retry_loop bs e focus max_retries (Suc attempt) ?w =
            (JNull, ?w\<lparr>api_calls := api_calls ?w + (max_retries - Suc attempt),
                  trace := trace ?w
                    @ concat (replicate (max_retries - Suc attempt - 1) [Request bs focus, Sleep 5])
                    @ [Request bs focus]\<rparr>)"
    proof (rule Suc.hyps(1))
      show "n = max_retries - Suc attempt" using Suc.hyps(2) by simp
      show "Suc attempt < max_retries" by (rule True)
      show "\<forall>j<max_retries - Suc attempt. attempt_fails e (api_calls ?w + j)"
      proof (intro allI impI)
        fix j assume "j < max_retries - Suc attempt"
        then have "Suc j < max_retries - attempt" by simp
        with Suc.prems(2) have "attempt_fails e (api_calls w + Suc j)" by blast
        then show "attempt_fails e (api_calls ?w + j)" by simp
      qed
    qed
    moreover have "max_retries - attempt - 1 = Suc (max_retries - Suc attempt - 1)"
      using True by simp
    ultimately show ?thesis using step True by simp
  qed
qed

lemma retry_loop_first_parsed:
  "fst (retry_loop bs e focus (attempt + m) attempt w) =
     (case first_parsed e (api_calls w) m of None \<Rightarrow> JNull | Some v \<Rightarrow> v)"
proof (induction m arbitrary: attempt w)
  case 0
  then show ?case by (simp add: retry_loop_done)
next
  case (Suc m)
  show ?case
  proof (cases "parse_response e (api e (api_calls w))")
    case (Inr v)
    then show ?thesis by (simp add: retry_loop_success)
  next
    case (Inl err)
    then have fails: "attempt_fails e (api_calls w)" by (simp add: attempt_fails_def)
    have lt: "attempt < attempt + Suc m" by simp
    show ?thesis
      using retry_loop_failure [OF lt fails, of bs focus] Suc.IH [of "Suc attempt"] Inl
      by (simp split: if_splits)
  qed
qed

section \<open>The accumulator loop\<close>


lemma iteration_records:
  "all_records (iteration bs e d st) =
     (if batch_accepted (iteration_batch bs e st)
      then all_records st @ list_items (iteration_batch bs e st) else all_records st)"
  by (simp add: iteration_def iteration_batch_def Let_def split: prod.splits)

lemma iteration_successful:
  "successful_batches (iteration bs e d st) =
     (if batch_accepted (iteration_batch bs e st)
      then successful_batches st + 1 else successful_batches st)"
  by (simp add: iteration_def iteration_batch_def Let_def split: prod.splits)

lemma iteration_failed:
  "failed_batches (iteration bs e d st) =
     (if batch_accepted (iteration_batch bs e st)
      then failed_batches st else failed_batches st + 1)"
  by (simp add: iteration_def iteration_batch_def Let_def split: prod.splits)

lemma iteration_frame:
  "files (world (iteration bs e d st)) = files (world st) \<and>
   rng_calls (world (iteration bs e d st)) = Suc (rng_calls (world st))"
proof -
  obtain focus w1 where rc: "random_choice e categories (world st) = (focus, w1)"
    by (cases "random_choice e categories (world st)")
  then have w1: "files w1 = files (world st)" "rng_calls w1 = Suc (rng_calls (world st))"
    by (auto simp: random_choice_def Let_def)
  obtain batch w2 where gb: "generate_batch bs e focus 3 w1 = (batch, w2)"
    by (cases "generate_batch bs e focus 3 w1")
  then have "files w2 = files w1 \<and> rng_calls w2 = rng_calls w1"
    using retry_loop_frame [of bs e focus 3 0 w1] by (simp add: generate_batch_def)
  with w1 rc gb show ?thesis
    by (simp add: iteration_def Let_def sleep_def)
qed


lemma accumulate_counters:
  "successful_batches (accumulate bs e d n st) + failed_batches (accumulate bs e d n st) =
     successful_batches st + failed_batches st + n"
  by (induction n) (simp_all add: iteration_successful iteration_failed)

lemma accumulate_frame:
  "files (world (accumulate bs e d n st)) = files (world st) \<and>
   rng_calls (world (accumulate bs e d n st)) = rng_calls (world st) + n"
  by (induction n) (simp_all add: iteration_frame)

lemma accumulate_add:
  "accumulate bs e d (m + k) st = accumulate bs e d k (accumulate bs e d m st)"
  by (induction k) simp_all

lemma accumulate_grows:
  "successful_batches st \<le> successful_batches (accumulate bs e d k st) \<and>
   failed_batches st \<le> failed_batches (accumulate bs e d k st) \<and>
   (\<exists>more. all_records (accumulate bs e d k st) = all_records st @ more)"
proof (induction k)
  case 0
  then show ?case by simp
next
  case (Suc k)
  then obtain more where "all_records (accumulate bs e d k st) = all_records st @ more"
    by blast
  then have "\<exists>more'. all_records (accumulate bs e d (Suc k) st) = all_records st @ more'"
    by (simp add: iteration_records)
  with Suc show ?case
    by (simp add: iteration_successful iteration_failed)
qed

lemma iteration_batch_first_parsed:
  "iteration_batch bs e st =
     (case first_parsed e (api_calls (world st)) 3 of None \<Rightarrow> JNull | Some v \<Rightarrow> v)"
  using retry_loop_first_parsed [of bs e _ 0 3]
  by (simp add: iteration_batch_def random_choice_def Let_def generate_batch_def)

lemma iteration_batch_failing: "iteration_batch bs failing_env st = JNull"
  by (simp add: iteration_batch_first_parsed numeral_3_eq_3 parse_response_def failing_env_def)

lemma iteration_batch_constant:
  "sample_loads (clean_response content) = Some v \<Longrightarrow>
   iteration_batch bs (constant_env content answer) st = v"
  by (simp add: iteration_batch_first_parsed numeral_3_eq_3 parse_response_def constant_env_def)

lemma concat_replicate_snoc: "concat (replicate n xs) @ xs = xs @ concat (replicate n xs)"
  by (induction n) simp_all

lemma accumulate_same_batch:
  assumes "\<And>s. iteration_batch bs e s = b"
  shows "all_records (accumulate bs e d n st) =
           all_records st @ concat (replicate n (if batch_accepted b then list_items b else []))"
  by (induction n) (simp_all add: iteration_records assms concat_replicate_snoc)

lemma valid_record_entry:
  assumes "valid_record item"
  shows "\<exists>p c. subscript item ''prompt'' = Inr p \<and> subscript item ''chosen'' = Inr c \<and>
           sft_entry item = Inr (JObj [(''prompt'', p), (''response'', c)])"
proof (cases item)
  case (JObj kvs)
  with assms have "nonempty_text (map_of kvs ''prompt'')" "nonempty_text (map_of kvs ''chosen'')"
    by (simp_all add: record_fields_def)
  then obtain p c where "map_of kvs ''prompt'' = Some p" "map_of kvs ''chosen'' = Some c"
    by (cases "map_of kvs ''prompt''"; cases "map_of kvs ''chosen''") auto
  with JObj show ?thesis by (simp add: sft_entry_def)
qed (use assms in simp_all)

lemma sft_dataset_valid:
  "list_all valid_record corpus \<Longrightarrow>
   \<exists>sft. sft_dataset corpus = Inr sft \<and> length sft = length corpus \<and>
     (\<forall>k<length corpus. \<exists>p c.
        subscript (corpus ! k) ''prompt'' = Inr p \<and> subscript (corpus ! k) ''chosen'' = Inr c \<and>
        sft ! k = JObj [(''prompt'', p), (''response'', c)])"
proof (induction corpus)
  case Nil
  then show ?case by simp
next
  case (Cons item rest)
  then obtain sft where sft: "sft_dataset rest = Inr sft" "length sft = length rest"
    "\<forall>k<length rest. \<exists>p c.
        subscript (rest ! k) ''prompt'' = Inr p \<and> subscript (rest ! k) ''chosen'' = Inr c \<and>
        sft ! k = JObj [(''prompt'', p), (''response'', c)]"
    by auto
  from Cons.prems have "valid_record item" by simp
  from valid_record_entry [OF this]
  obtain p c where pc: "subscript item ''prompt'' = Inr p" "subscript item ''chosen'' = Inr c"
    "sft_entry item = Inr (JObj [(''prompt'', p), (''response'', c)])"
    by blast
  let ?x = "JObj [(''prompt'', p), (''response'', c)]"
  have "sft_dataset (item # rest) = Inr (?x # sft)"
    using pc(3) sft(1) by simp
  moreover have "length (?x # sft) = length (item # rest)"
    using sft(2) by simp
  moreover have "\<forall>k<length (item # rest). \<exists>p c.
        subscript ((item # rest) ! k) ''prompt'' = Inr p \<and>
        subscript ((item # rest) ! k) ''chosen'' = Inr c \<and>
        (?x # sft) ! k = JObj [(''prompt'', p), (''response'', c)]"
  proof (intro allI impI)
    fix k assume "k < length (item # rest)"
    then show "\<exists>p c. subscript ((item # rest) ! k) ''prompt'' = Inr p \<and>
        subscript ((item # rest) ! k) ''chosen'' = Inr c \<and>
        (?x # sft) ! k = JObj [(''prompt'', p), (''response'', c)]"
      using pc(1,2) sft(3) by (cases k) auto
  qed
  ultimately show ?case by blast
qed

lemma output_files_differ: "OUTPUT_RM_FILE \<noteq> OUTPUT_SFT_FILE"
  by (simp add: OUTPUT_RM_FILE_def OUTPUT_SFT_FILE_def)

lemma first_parsed_None:
  "first_parsed e c m = None \<longleftrightarrow> (\<forall>j<m. attempt_fails e (c + j))"
proof (induction m arbitrary: c)
  case 0
  then show ?case by simp
next
  case (Suc m)
  show ?case
  proof (cases "parse_response e (api e c)")
    case (Inr v)
    then have "\<not> attempt_fails e (c + 0)" by (simp add: attempt_fails_def)
    with Inr show ?thesis by (metis first_parsed.simps(2) option.distinct(1) sum.simps(6) zero_less_Suc)
  next
    case (Inl err)
    then have here: "attempt_fails e c" by (simp add: attempt_fails_def)
    have "(\<forall>j<Suc m. attempt_fails e (c + j)) \<longleftrightarrow> (\<forall>j<m. attempt_fails e (Suc c + j))"
    proof
      assume a: "\<forall>j<Suc m. attempt_fails e (c + j)"
      show "\<forall>j<m. attempt_fails e (Suc c + j)"
      proof (intro allI impI)
        fix j assume "j < m"
        then have "Suc j < Suc m" by simp
        with a have "attempt_fails e (c + Suc j)" by blast
        then show "attempt_fails e (Suc c + j)" by simp
      qed
    next
      assume a: "\<forall>j<m. attempt_fails e (Suc c + j)"
      show "\<forall>j<Suc m. attempt_fails e (c + j)"
      proof (intro allI impI)
        fix j assume "j < Suc m"
        then show "attempt_fails e (c + j)"
          using a here by (cases j) auto
      qed
    qed
    with Inl Suc.IH [of "Suc c"] show ?thesis by simp
  qed
qed

lemma attempt_fails_cases:
  "attempt_fails e n \<longleftrightarrow>
     (api e n = ApiRaises \<or> api e n = ApiResponse [] \<or>
      (\<exists>rest. api e n = ApiResponse (None # rest)) \<or>
      (\<exists>content rest. api e n = ApiResponse (Some content # rest) \<and>
         json_loads e (clean_response content) = None))"
  by (auto simp: attempt_fails_def parse_response_def
      split: api_outcome.splits list.splits option.splits)

lemma run_accumulator_Inr:
  assumes "0 < batch_size cfg" and "delay_between_requests cfg = Inr d"
  shows "run_accumulator cfg e w =
           Inr (accumulate (batch_size cfg) e d (total_iterations cfg) (initial_state w))"
  using assms by (simp add: run_accumulator_def)

lemma run_accumulator_InrD:
  assumes "run_accumulator cfg e w = Inr st"
  shows "\<exists>d. st = accumulate (batch_size cfg) e d (total_iterations cfg) (initial_state w)"
  using assms by (auto simp: run_accumulator_def split: if_splits sum.splits)

section \<open>Properties of the generation pipeline\<close>

subsection \<open>The request client\<close>

text \<open>
  Claim C1 says that every batch returned is an array of objects with the four non-empty
  record fields, and that a response that is no array or holds an invalid object is
  rejected. The code returns whatever the parse yields: the array \<^verbatim>\<open>[1]\<close> and the object
  \<^verbatim>\<open>{}\<close> both come back from \<open>generate_batch\<close> as its result, after a single request.
\<close>

theorem generate_batch_validates_counterexample:
  "fst (generate_batch 10 (constant_env ''[1]'' None) ''Good Question'' 3 empty_world) = JArr [JInt 1] \<and>
   \<not> valid_batch (JArr [JInt 1]) \<and>
   fst (generate_batch 10 (constant_env ''{}'' None) ''Good Question'' 3 empty_world) = JObj [] \<and>
   \<not> valid_batch (JObj [])"
  by code_simp

text \<open>
  Claim C1 as amended: an attempt succeeds with a value exactly when the response has a
  first choice with content and \<^verbatim>\<open>json.loads\<close> of the cleaned content yields that value,
  whatever the value is. A response whose parse raises is a failed attempt. After \<open>k\<close>
  failed attempts, with \<open>k\<close> below \<open>max_retries\<close>, the value parsed from the next
  response is the result of \<open>generate_batch\<close>, unchecked, after \<open>k + 1\<close> requests; and
  when all \<open>max_retries\<close> attempts fail the result is \<^verbatim>\<open>None\<close>, after \<open>max_retries\<close>
  requests.
\<close>

theorem request_batch_unvalidated:
  "(fst (request_batch bs e focus w) = Inr v \<longleftrightarrow>
      (\<exists>content rest. api e (api_calls w) = ApiResponse (Some content # rest) \<and>
         json_loads e (clean_response content) = Some v)) \<and>
   (k < max_retries \<and> (\<forall>j<k. attempt_fails e (api_calls w + j)) \<and>
      api e (api_calls w + k) = ApiResponse (Some content # rest) \<and>
      json_loads e (clean_response content) = Some v \<longrightarrow>
      fst (generate_batch bs e focus max_retries w) = v \<and>
      api_calls (snd (generate_batch bs e focus max_retries w)) = api_calls w + (k + 1)) \<and>
   (api e n = ApiResponse (Some content # rest) \<and>
      json_loads e (clean_response content) = None \<longrightarrow>
      parse_response e (api e n) = Inl JSONDecodeError \<and> attempt_fails e n) \<and>
   ((\<forall>j<max_retries. attempt_fails e (api_calls w + j)) \<longrightarrow>
      fst (generate_batch bs e focus max_retries w) = JNull \<and>
      api_calls (snd (generate_batch bs e focus max_retries w)) = api_calls w + max_retries)"
proof (intro conjI impI)
  show "fst (request_batch bs e focus w) = Inr v \<longleftrightarrow>
      (\<exists>content rest. api e (api_calls w) = ApiResponse (Some content # rest) \<and>
         json_loads e (clean_response content) = Some v)"
    by (auto simp: request_batch_def parse_response_def
        split: api_outcome.splits list.splits option.splits)
next
  assume a: "k < max_retries \<and> (\<forall>j<k. attempt_fails e (api_calls w + j)) \<and>
      api e (api_calls w + k) = ApiResponse (Some content # rest) \<and>
      json_loads e (clean_response content) = Some v"
  then have "parse_response e (api e (api_calls w + k)) = Inr v"
    by (simp add: parse_response_def)
  with a have r: "retry_loop bs e focus max_retries 0 w =
     (v, w\<lparr>api_calls := api_calls w + (k + 1),
           trace := trace w @ concat (replicate k [Request bs focus, Sleep 5])
                      @ [Request bs focus]\<rparr>)"
    using retry_loop_after_failures [of 0 k max_retries e w v bs focus] by simp
  show "fst (generate_batch bs e focus max_retries w) = v"
    by (simp add: generate_batch_def r)
  show "api_calls (snd (generate_batch bs e focus max_retries w)) = api_calls w + (k + 1)"
    by (simp add: generate_batch_def r)
next
  assume a: "api e n = ApiResponse (Some content # rest) \<and>
      json_loads e (clean_response content) = None"
  then show "parse_response e (api e n) = Inl JSONDecodeError"
    by (simp add: parse_response_def)
  then show "attempt_fails e n"
    by (simp add: attempt_fails_def)
next
  assume a: "\<forall>j<max_retries. attempt_fails e (api_calls w + j)"
  have r: "retry_loop bs e focus max_retries 0 w =
             (JNull, w\<lparr>api_calls := api_calls w + max_retries,
                trace := trace w @ concat (replicate (max_retries - 1) [Request bs focus, Sleep 5])
                           @ [Request bs focus]\<rparr>)" if "0 < max_retries"
    using retry_loop_exhausted [of 0 max_retries e w bs focus] a that by simp
  show "fst (generate_batch bs e focus max_retries w) = JNull"
    using r by (cases "0 < max_retries") (simp_all add: generate_batch_def retry_loop_done)
  show "api_calls (snd (generate_batch bs e focus max_retries w)) = api_calls w + max_retries"
    using r by (cases "0 < max_retries") (simp_all add: generate_batch_def retry_loop_done)
qed

theorem request_batch_unvalidated_witness:
  "attempt_fails (scripted_env [''oops'', ''[1]'']) 0 \<and>
   parse_response (scripted_env [''oops'', ''[1]'']) (api (scripted_env [''oops'', ''[1]'']) 0) =
     Inl JSONDecodeError \<and>
   fst (generate_batch 10 (scripted_env [''oops'', ''[1]'']) ''Poor Logic'' 3 empty_world) =
     JArr [JInt 1] \<and>
   api_calls (snd (generate_batch 10 (scripted_env [''oops'', ''[1]'']) ''Poor Logic'' 3 empty_world)) = 2 \<and>
   fst (generate_batch 10 (scripted_env [''oops'', ''oops'', ''oops'']) ''Poor Logic'' 3 empty_world) =
     JNull \<and>
   api_calls (snd (generate_batch 10 (scripted_env [''oops'', ''oops'', ''oops'']) ''Poor Logic'' 3
     empty_world)) = 3"
proof -
  let ?e = "scripted_env [''oops'', ''[1]'']"
  let ?f = "scripted_env [''oops'', ''oops'', ''oops'']"
  have c0: "api_calls empty_world = 0" by (simp add: empty_world_def)
  have a0: "api ?e 0 = ApiResponse (Some ''oops'' # [])"
    by (simp add: scripted_env_def)
  have a1: "api ?e (api_calls empty_world + 1) = ApiResponse (Some ''[1]'' # [])"
    by (simp add: scripted_env_def c0)
  have l0: "json_loads ?e (clean_response ''oops'') = None"
    by code_simp
  have l1: "json_loads ?e (clean_response ''[1]'') = Some (JArr [JInt 1])"
    by code_simp
  have f0: "parse_response ?e (api ?e 0) = Inl JSONDecodeError \<and> attempt_fails ?e 0"
    using request_batch_unvalidated [of 10 ?e "''Poor Logic''" empty_world JNull 0 3 "''oops''" "[]" 0]
      a0 l0 by blast
  then have fails: "\<forall>j<1. attempt_fails ?e (api_calls empty_world + j)"
    by (simp add: c0)
  have g: "fst (generate_batch 10 ?e ''Poor Logic'' 3 empty_world) = JArr [JInt 1] \<and>
      api_calls (snd (generate_batch 10 ?e ''Poor Logic'' 3 empty_world)) = api_calls empty_world + (1 + 1)"
    using request_batch_unvalidated
      [of 10 ?e "''Poor Logic''" empty_world "JArr [JInt 1]" 1 3 "''[1]''" "[]" 0]
      fails a1 l1 by simp
  have "attempt_fails ?f 0" "attempt_fails ?f 1" "attempt_fails ?f 2"
    by code_simp+
  then have all: "\<forall>j<3. attempt_fails ?f (api_calls empty_world + j)"
    by (auto simp: c0 numeral_3_eq_3 less_Suc_eq numeral_2_eq_2)
  have h: "fst (generate_batch 10 ?f ''Poor Logic'' 3 empty_world) = JNull \<and>
      api_calls (snd (generate_batch 10 ?f ''Poor Logic'' 3 empty_world)) = api_calls empty_world + 3"
    using request_batch_unvalidated
      [of 10 ?f "''Poor Logic''" empty_world JNull 0 3 "''oops''" "[]" 0] all
    by blast
  from f0 g h show ?thesis by (simp add: c0)
qed

subsection \<open>The retry controller\<close>

text \<open>
  Claim C5: when the first \<open>k\<close> attempts fail, with \<open>k\<close> below \<open>max_retries\<close>, and the next
  one succeeds, \<open>generate_batch\<close> returns the value of that attempt after exactly
  \<open>k + 1\<close> requests, with a sleep of 5 after each of the \<open>k\<close> failures; when all
  \<open>max_retries\<close> attempts fail it returns \<^verbatim>\<open>None\<close> after exactly \<open>max_retries\<close>
  requests, and no sleep follows the last of them. The witness takes the default of
  three attempts.
\<close>

theorem generate_batch_retry:
  "(k < max_retries \<and> (\<forall>j<k. attempt_fails e (api_calls w + j)) \<and>
      parse_response e (api e (api_calls w + k)) = Inr v \<longrightarrow>
    generate_batch bs e focus max_retries w =
      (v, w\<lparr>api_calls := api_calls w + (k + 1),
            trace := trace w @ concat (replicate k [Request bs focus, Sleep 5])
                       @ [Request bs focus]\<rparr>)) \<and>
   (0 < max_retries \<and> (\<forall>j<max_retries. attempt_fails e (api_calls w + j)) \<longrightarrow>
    generate_batch bs e focus max_retries w =
      (JNull, w\<lparr>api_calls := api_calls w + max_retries,
                trace := trace w @ concat (replicate (max_retries - 1) [Request bs focus, Sleep 5])
                           @ [Request bs focus]\<rparr>))"
  using retry_loop_after_failures [of 0 k max_retries e w v bs focus]
    retry_loop_exhausted [of 0 max_retries e w bs focus]
  by (simp add: generate_batch_def)

theorem generate_batch_retry_witness:
  "generate_batch 10 (flaky_env 2) ''Poor Logic'' 3 empty_world =
     (JArr [JInt 1],
      \<lparr>api_calls = 3, rng_calls = 0,
       trace = [Request 10 ''Poor Logic'', Sleep 5, Request 10 ''Poor Logic'', Sleep 5,
                Request 10 ''Poor Logic''],
       files = Map.empty\<rparr>) \<and>
   generate_batch 10 failing_env ''Poor Logic'' 3 empty_world =
     (JNull,
      \<lparr>api_calls = 3, rng_calls = 0,
       trace = [Request 10 ''Poor Logic'', Sleep 5, Request 10 ''Poor Logic'', Sleep 5,
                Request 10 ''Poor Logic''],
       files = Map.empty\<rparr>)"
proof -
  have parse: "parse_response (flaky_env 2) (api (flaky_env 2) 2) = Inr (JArr [JInt 1])"
    by code_simp
  have fl: "\<forall>j<2. attempt_fails (flaky_env 2) (api_calls empty_world + j)"
    by (simp add: attempt_fails_def flaky_env_def parse_response_def empty_world_def)
  have fa: "\<forall>j<3. attempt_fails failing_env (api_calls empty_world + j)"
    by (simp add: attempt_fails_def failing_env_def parse_response_def empty_world_def)
  have c: "api_calls empty_world = 0" by (simp add: empty_world_def)
  show ?thesis
    using generate_batch_retry [of 2 3 "flaky_env 2" empty_world "JArr [JInt 1]" 10 "''Poor Logic''"]
      generate_batch_retry [of 0 3 failing_env empty_world JNull 10 "''Poor Logic''"]
      parse fl fa
    by (simp add: c numeral_3_eq_3 numeral_2_eq_2) (simp add: empty_world_def)
qed

text \<open>
  Claim C8 says that the first successful batch that is not null is returned and that
  every format failure becomes \<^verbatim>\<open>None\<close>. When the first response is \<^verbatim>\<open>null\<close> and the
  second holds a batch, \<open>generate_batch\<close> returns \<^verbatim>\<open>None\<close> after a single request and
  never reaches the batch; and the response \<^verbatim>\<open>{}\<close>, which is no array, comes back as the
  result and not as \<^verbatim>\<open>None\<close>.
\<close>

theorem generate_batch_null_counterexample:
  "fst (generate_batch 10 (scripted_env [''null'', ''[1]'']) ''Poor Logic'' 3 empty_world) = JNull \<and>
   api_calls (snd (generate_batch 10 (scripted_env [''null'', ''[1]'']) ''Poor Logic'' 3 empty_world)) = 1 \<and>
   parse_response (scripted_env [''null'', ''[1]'']) (api (scripted_env [''null'', ''[1]'']) 1) =
     Inr (JArr [JInt 1]) \<and>
   fst (generate_batch 10 (scripted_env [''{}'']) ''Poor Logic'' 3 empty_world) = JObj [] \<and>
   \<not> valid_batch (JObj []) \<and> JObj [] \<noteq> JNull"
  by code_simp

text \<open>
  Claim C8 as amended: \<open>generate_batch\<close> has a result for every behaviour of the
  endpoint, namely the value parsed in the first attempt that does not fail, whatever
  that value is (a parsed null ends the attempts and is the result \<^verbatim>\<open>None\<close>), and \<^verbatim>\<open>None\<close>
  when all attempts fail. An attempt fails exactly when the request raises, when the
  response has no choice or a first choice without content, or when the parse raises.
  When the two divisions of \<open>main\<close> do not raise, the loop completes every pass.
\<close>

theorem generate_batch_absorbs:
  "fst (generate_batch bs e focus max_retries w) =
     (case first_parsed e (api_calls w) max_retries of None \<Rightarrow> JNull | Some v \<Rightarrow> v) \<and>
   (first_parsed e (api_calls w) max_retries = None \<longleftrightarrow>
      (\<forall>j<max_retries. attempt_fails e (api_calls w + j))) \<and>
   (attempt_fails e n \<longleftrightarrow>
      (api e n = ApiRaises \<or> api e n = ApiResponse [] \<or>
       (\<exists>rest. api e n = ApiResponse (None # rest)) \<or>
       (\<exists>content rest. api e n = ApiResponse (Some content # rest) \<and>
          json_loads e (clean_response content) = None))) \<and>
   (0 < batch_size cfg \<and> \<not> isl (delay_between_requests cfg) \<longrightarrow>
      (\<exists>st. run_accumulator cfg e w = Inr st \<and>
         successful_batches st + failed_batches st = total_iterations cfg))"
proof (intro conjI impI)
  show "fst (generate_batch bs e focus max_retries w) =
     (case first_parsed e (api_calls w) max_retries of None \<Rightarrow> JNull | Some v \<Rightarrow> v)"
    using retry_loop_first_parsed [of bs e focus 0 max_retries w] by (simp add: generate_batch_def)
  show "first_parsed e (api_calls w) max_retries = None \<longleftrightarrow>
      (\<forall>j<max_retries. attempt_fails e (api_calls w + j))"
    by (rule first_parsed_None)
  show "attempt_fails e n \<longleftrightarrow>
      (api e n = ApiRaises \<or> api e n = ApiResponse [] \<or>
       (\<exists>rest. api e n = ApiResponse (None # rest)) \<or>
       (\<exists>content rest. api e n = ApiResponse (Some content # rest) \<and>
          json_loads e (clean_response content) = None))"
    by (rule attempt_fails_cases)
next
  assume a: "0 < batch_size cfg \<and> \<not> isl (delay_between_requests cfg)"
  then obtain d where d: "delay_between_requests cfg = Inr d"
    by (cases "delay_between_requests cfg") auto
  show "\<exists>st. run_accumulator cfg e w = Inr st \<and>
         successful_batches st + failed_batches st = total_iterations cfg"
    using run_accumulator_Inr [of cfg d e w] a d
      accumulate_counters [of "batch_size cfg" e d "total_iterations cfg" "initial_state w"]
    by (simp add: initial_state_def)
qed

theorem generate_batch_absorbs_witness:
  "fst (generate_batch 10 (flaky_env 1) ''Poor Logic'' 3 empty_world) = JArr [JInt 1] \<and>
   fst (generate_batch 10 failing_env ''Poor Logic'' 3 empty_world) = JNull \<and>
   fst (generate_batch 10 (scripted_env [''null'', ''[1]'']) ''Poor Logic'' 3 empty_world) = JNull \<and>
   0 < batch_size default_config \<and> \<not> isl (delay_between_requests default_config) \<and>
   (\<exists>st. run_accumulator default_config failing_env empty_world = Inr st \<and>
      successful_batches st + failed_batches st = 300)"
proof -
  have a: "first_parsed (flaky_env 1) (api_calls empty_world) 3 = Some (JArr [JInt 1])"
    by code_simp
  have b: "first_parsed failing_env (api_calls empty_world) 3 = None"
    by code_simp
  have n: "first_parsed (scripted_env [''null'', ''[1]'']) (api_calls empty_world) 3 = Some JNull"
    by code_simp
  have c: "0 < batch_size default_config \<and> \<not> isl (delay_between_requests default_config)"
    by (simp add: delay_default) (simp add: default_config_def)
  have t: "total_iterations default_config = 300"
    by (simp add: total_iterations_def default_config_def)
  show ?thesis
    using generate_batch_absorbs [of 10 "flaky_env 1" "''Poor Logic''" 3 empty_world 0 default_config]
      generate_batch_absorbs [of 10 failing_env "''Poor Logic''" 3 empty_world 0 default_config]
      generate_batch_absorbs [of 10 "scripted_env [''null'', ''[1]'']" "''Poor Logic''" 3 empty_world 0
        default_config]
      a b n c t
    by simp
qed

subsection \<open>The accumulator\<close>

text \<open>
  Claim C2 says that a returned batch, an empty one included, is appended and counted as
  successful. When the endpoint answers \<^verbatim>\<open>[]\<close>, \<open>generate_batch\<close> returns the empty
  list, which is a batch in the sense of the specification, and the pass counts it as
  failed: \<open>successful_batches\<close> keeps its value and \<open>failed_batches\<close> grows by one.
\<close>

theorem iteration_empty_batch_counterexample:
  "iteration_batch 10 (constant_env ''[]'' None) (initial_state empty_world) = JArr [] \<and>
   valid_batch (JArr []) \<and>
   successful_batches (iteration 10 (constant_env ''[]'' None) 12 (initial_state empty_world)) =
     successful_batches (initial_state empty_world) \<and>
   failed_batches (iteration 10 (constant_env ''[]'' None) 12 (initial_state empty_world)) =
     failed_batches (initial_state empty_world) + 1"
  by code_simp

text \<open>
  Claim C2 as amended: the test of the pass accepts exactly the non-empty lists. When
  \<open>generate_batch\<close> returns a non-empty list, of whatever length, all its elements are
  appended to \<open>all_records\<close> and \<open>successful_batches\<close> grows by one while
  \<open>failed_batches\<close> keeps its value; in every other case (\<^verbatim>\<open>None\<close>, an empty list, a value
  that is no list) \<open>all_records\<close> and \<open>successful_batches\<close> keep their values and
  \<open>failed_batches\<close> grows by one. So exactly one of the two counters changes in a pass.
\<close>

theorem iteration_counts_batch:
  "(batch_accepted (iteration_batch bs e st) \<longleftrightarrow>
      (\<exists>x xs. iteration_batch bs e st = JArr (x # xs))) \<and>
   (batch_accepted (iteration_batch bs e st) \<longrightarrow>
      all_records (iteration bs e d st) = all_records st @ list_items (iteration_batch bs e st) \<and>
      successful_batches (iteration bs e d st) = successful_batches st + 1 \<and>
      failed_batches (iteration bs e d st) = failed_batches st) \<and>
   (\<not> batch_accepted (iteration_batch bs e st) \<longrightarrow>
      all_records (iteration bs e d st) = all_records st \<and>
      successful_batches (iteration bs e d st) = successful_batches st \<and>
      failed_batches (iteration bs e d st) = failed_batches st + 1)"
proof -
  have "batch_accepted b \<longleftrightarrow> (\<exists>x xs. b = JArr (x # xs))" for b
    by (cases b) (auto simp: batch_accepted_def neq_Nil_conv)
  then show ?thesis
    by (simp add: iteration_records iteration_successful iteration_failed)
qed

theorem iteration_counts_batch_witness:
  "batch_accepted (iteration_batch 10 (constant_env ''[1]'' None) (initial_state empty_world)) \<and>
   all_records (iteration 10 (constant_env ''[1]'' None) 12 (initial_state empty_world)) = [JInt 1] \<and>
   successful_batches (iteration 10 (constant_env ''[1]'' None) 12 (initial_state empty_world)) = 1 \<and>
   failed_batches (iteration 10 (constant_env ''[1]'' None) 12 (initial_state empty_world)) = 0 \<and>
   \<not> batch_accepted (iteration_batch 10 failing_env (initial_state empty_world)) \<and>
   all_records (iteration 10 failing_env 12 (initial_state empty_world)) = [] \<and>
   successful_batches (iteration 10 failing_env 12 (initial_state empty_world)) = 0 \<and>
   failed_batches (iteration 10 failing_env 12 (initial_state empty_world)) = 1"
proof -
  have a: "iteration_batch 10 (constant_env ''[1]'' None) (initial_state empty_world) = JArr [JInt 1]"
    by code_simp
  have b: "iteration_batch 10 failing_env (initial_state empty_world) = JNull"
    by code_simp
  have acc: "batch_accepted (iteration_batch 10 (constant_env ''[1]'' None) (initial_state empty_world))"
    by (simp add: a batch_accepted_def)
  have rej: "\<not> batch_accepted (iteration_batch 10 failing_env (initial_state empty_world))"
    by (simp add: b batch_accepted_def)
  have init: "all_records (initial_state empty_world) = []"
    "successful_batches (initial_state empty_world) = 0"
    "failed_batches (initial_state empty_world) = 0"
    by (simp_all add: initial_state_def)
  show ?thesis
    using iteration_counts_batch [of 10 "constant_env ''[1]'' None" "initial_state empty_world" 12]
      iteration_counts_batch [of 10 failing_env "initial_state empty_world" 12]
      acc rej
    by (simp add: a init)
qed

text \<open>
  Claim C10: after \<open>n\<close> passes of the loop, started with both counters at zero and an
  empty list of records, the two counters add up to \<open>n\<close>; and between an earlier and
  a later pass neither counter decreases and the list of records only grows at its end.
\<close>

theorem accumulate_counters_invariant:
  "successful_batches (accumulate bs e d n (initial_state w)) +
     failed_batches (accumulate bs e d n (initial_state w)) = n \<and>
   (m \<le> n \<longrightarrow>
      successful_batches (accumulate bs e d m (initial_state w))
        \<le> successful_batches (accumulate bs e d n (initial_state w)) \<and>
      failed_batches (accumulate bs e d m (initial_state w))
        \<le> failed_batches (accumulate bs e d n (initial_state w)) \<and>
      length (all_records (accumulate bs e d m (initial_state w)))
        \<le> length (all_records (accumulate bs e d n (initial_state w))) \<and>
      take (length (all_records (accumulate bs e d m (initial_state w))))
        (all_records (accumulate bs e d n (initial_state w))) =
        all_records (accumulate bs e d m (initial_state w)))"
proof (intro conjI impI)
  show "successful_batches (accumulate bs e d n (initial_state w)) +
     failed_batches (accumulate bs e d n (initial_state w)) = n"
    using accumulate_counters [of bs e d n "initial_state w"] by (simp add: initial_state_def)
next
  assume "m \<le> n"
  then obtain k where n: "n = m + k" using le_Suc_ex by blast
  let ?s = "accumulate bs e d m (initial_state w)"
  have split: "accumulate bs e d n (initial_state w) = accumulate bs e d k ?s"
    by (simp add: n accumulate_add)
  from accumulate_grows [of ?s bs e d k]
  obtain more where grows: "successful_batches ?s \<le> successful_batches (accumulate bs e d k ?s)"
    "failed_batches ?s \<le> failed_batches (accumulate bs e d k ?s)"
    "all_records (accumulate bs e d k ?s) = all_records ?s @ more"
    by blast
  show "successful_batches ?s \<le> successful_batches (accumulate bs e d n (initial_state w))"
    using grows(1) split by simp
  show "failed_batches ?s \<le> failed_batches (accumulate bs e d n (initial_state w))"
    using grows(2) split by simp
  show "length (all_records ?s) \<le> length (all_records (accumulate bs e d n (initial_state w)))"
    using grows(3) split by simp
  show "take (length (all_records ?s)) (all_records (accumulate bs e d n (initial_state w))) =
          all_records ?s"
    using grows(3) split by simp
qed

theorem accumulate_counters_invariant_witness:
  "(1::nat) \<le> 2 \<and>
   successful_batches (accumulate 10 (flaky_env 3) 12 2 (initial_state empty_world)) +
     failed_batches (accumulate 10 (flaky_env 3) 12 2 (initial_state empty_world)) = 2 \<and>
   successful_batches (accumulate 10 (flaky_env 3) 12 1 (initial_state empty_world))
     \<le> successful_batches (accumulate 10 (flaky_env 3) 12 2 (initial_state empty_world)) \<and>
   failed_batches (accumulate 10 (flaky_env 3) 12 1 (initial_state empty_world))
     \<le> failed_batches (accumulate 10 (flaky_env 3) 12 2 (initial_state empty_world)) \<and>
   length (all_records (accumulate 10 (flaky_env 3) 12 1 (initial_state empty_world)))
     \<le> length (all_records (accumulate 10 (flaky_env 3) 12 2 (initial_state empty_world)))"
  using accumulate_counters_invariant [of 10 "flaky_env 3" 12 2 empty_world 1]
  by simp

text \<open>
  Claim C6: when the two divisions do not raise, the loop makes exactly
  \<open>num_records_to_generate div batch_size\<close> passes, counted by the draws of
  \<^verbatim>\<open>random.choice\<close> (one per pass) and by the two counters; the configured 3000 and 10
  give 300 passes; and the records gathered can stay below the target without the loop
  failing, as they do when every request raises.
\<close>

theorem accumulator_iteration_count:
  "(0 < batch_size cfg \<and> \<not> isl (delay_between_requests cfg) \<longrightarrow>
      (\<exists>st. run_accumulator cfg e w = Inr st \<and>
         rng_calls (world st) = rng_calls w + num_records_to_generate cfg div batch_size cfg \<and>
         successful_batches st + failed_batches st =
           num_records_to_generate cfg div batch_size cfg)) \<and>
   total_iterations default_config = 300 \<and>
   (\<exists>st. run_accumulator default_config failing_env w = Inr st \<and>
      length (all_records st) < num_records_to_generate default_config)"
proof (intro conjI impI)
  assume a: "0 < batch_size cfg \<and> \<not> isl (delay_between_requests cfg)"
  then obtain d where d: "delay_between_requests cfg = Inr d"
    by (cases "delay_between_requests cfg") auto
  show "\<exists>st. run_accumulator cfg e w = Inr st \<and>
         rng_calls (world st) = rng_calls w + num_records_to_generate cfg div batch_size cfg \<and>
         successful_batches st + failed_batches st =
           num_records_to_generate cfg div batch_size cfg"
    using accumulate_counters [of "batch_size cfg" e d "total_iterations cfg" "initial_state w"]
      accumulate_frame [of "batch_size cfg" e d "total_iterations cfg" "initial_state w"]
      run_accumulator_Inr [of cfg d e w] a d
    by (simp add: total_iterations_def initial_state_def)
next
  show "total_iterations default_config = 300"
    by (simp add: total_iterations_def default_config_def)
next
  have "all_records (accumulate 10 failing_env 12 300 (initial_state w)) = []"
    using accumulate_same_batch [of 10 failing_env JNull 12 300 "initial_state w"]
    by (simp add: iteration_batch_failing batch_accepted_def initial_state_def)
  moreover have "run_accumulator default_config failing_env w =
      Inr (accumulate 10 failing_env 12 300 (initial_state w))"
    using run_accumulator_Inr [of default_config 12 failing_env w] delay_default
    by (simp add: default_config_def total_iterations_def)
  ultimately show "\<exists>st. run_accumulator default_config failing_env w = Inr st \<and>
      length (all_records st) < num_records_to_generate default_config"
    by (simp add: default_config_def)
qed

theorem accumulator_iteration_count_witness:
  "0 < batch_size default_config \<and> \<not> isl (delay_between_requests default_config) \<and>
   (\<exists>st. run_accumulator default_config (flaky_env 7) empty_world = Inr st \<and>
      rng_calls (world st) = 300 \<and> successful_batches st + failed_batches st = 300)"
proof -
  have c: "0 < batch_size default_config \<and> \<not> isl (delay_between_requests default_config)"
    by (simp add: delay_default) (simp add: default_config_def)
  have n: "num_records_to_generate default_config div batch_size default_config = 300"
    "rng_calls empty_world = 0"
    by (simp_all add: default_config_def empty_world_def)
  show ?thesis
    using accumulator_iteration_count [of default_config "flaky_env 7" empty_world] c
    by (simp add: n)
qed

subsection \<open>The rate limiter\<close>




subsection \<open>The confirmation gate and the saved files\<close>

text \<open>
  Claim C3: when the loop has ended with fewer records than \<open>min_records\<close> and the
  confirmation is withheld (no line can be read, or the answer is not \<^verbatim>\<open>y\<close> after
  lower-casing and stripping), \<open>main\<close> ends with the files as they were before the
  run: neither output file is written. It ends normally on an answer and with
  \<^verbatim>\<open>EOFError\<close> when there is no line.
\<close>

theorem shortfall_declined_writes_nothing:
  "run_accumulator cfg e w = Inr st \<Longrightarrow>
   length (all_records st) < min_records cfg \<Longrightarrow>
   confirmation_declined e \<Longrightarrow>
   files (snd (main cfg e w)) = files w \<and>
   fst (main cfg e w) = (case stdin_line e of None \<Rightarrow> Inl EOFError | Some line \<Rightarrow> Inr ())"
proof -
  assume run: "run_accumulator cfg e w = Inr st"
    and short: "length (all_records st) < min_records cfg"
    and declined: "confirmation_declined e"
  from run_accumulator_InrD [OF run]
  obtain d where "st = accumulate (batch_size cfg) e d (total_iterations cfg) (initial_state w)"
    by blast
  then have files: "files (world st) = files w"
    using accumulate_frame [of "batch_size cfg" e d "total_iterations cfg" "initial_state w"]
    by (simp add: initial_state_def)
  show ?thesis
  proof (cases "stdin_line e")
    case None
    with run short files show ?thesis by (simp add: main_def finish_def)
  next
    case (Some line)
    with declined have "strip (lower line) \<noteq> ''y''"
      by (simp add: confirmation_declined_def)
    with Some run short files show ?thesis by (simp add: main_def finish_def)
  qed
qed

theorem shortfall_declined_writes_nothing_witness:
  "run_accumulator test_config (constant_env ''[1]'' (Some ''N'')) empty_world =
     Inr (accumulate 10 (constant_env ''[1]'' (Some ''N'')) 12 2 (initial_state empty_world)) \<and>
   length (all_records
     (accumulate 10 (constant_env ''[1]'' (Some ''N'')) 12 2 (initial_state empty_world)))
     < min_records test_config \<and>
   confirmation_declined (constant_env ''[1]'' (Some ''N'')) \<and>
   files (snd (main test_config (constant_env ''[1]'' (Some ''N'')) empty_world)) OUTPUT_RM_FILE = None \<and>
   files (snd (main test_config (constant_env ''[1]'' (Some ''N'')) empty_world)) OUTPUT_SFT_FILE = None \<and>
   fst (main test_config (constant_env ''[1]'' (Some ''N'')) empty_world) = Inr ()"
proof -
  let ?e = "constant_env ''[1]'' (Some ''N'')"
  let ?st = "accumulate 10 ?e 12 2 (initial_state empty_world)"
  have run: "run_accumulator test_config ?e empty_world = Inr ?st"
    using run_accumulator_Inr [of test_config 12 ?e empty_world] delay_test
    by (simp add: test_config_def default_config_def total_iterations_def)
  have recs: "all_records ?st = [JInt 1, JInt 1]"
    by code_simp
  have short: "length (all_records ?st) < min_records test_config"
    by (simp add: recs test_config_def default_config_def)
  have declined: "confirmation_declined ?e"
    by code_simp
  have line: "stdin_line ?e = Some ''N''"
    by (simp add: constant_env_def)
  show ?thesis
    using shortfall_declined_writes_nothing [OF run short declined] run short declined
    by (simp add: line empty_world_def)
qed

text \<open>
  Claim C7: for a corpus whose elements are all records with the four non-empty
  fields, saving succeeds; the first file holds the corpus unchanged; the second holds
  a list of the same length whose element at every index is the object made of the
  \<^verbatim>\<open>prompt\<close> of the record at that index and, under \<^verbatim>\<open>response\<close>, its \<^verbatim>\<open>chosen\<close>.
\<close>

theorem save_datasets_projection:
  "list_all valid_record corpus \<Longrightarrow>
   \<exists>sft. fst (save_datasets corpus w) = Inr () \<and>
     files (snd (save_datasets corpus w)) OUTPUT_RM_FILE = Some (JArr corpus) \<and>
     files (snd (save_datasets corpus w)) OUTPUT_SFT_FILE = Some (JArr sft) \<and>
     length sft = length corpus \<and>
     (\<forall>k<length corpus. \<exists>p c.
        subscript (corpus ! k) ''prompt'' = Inr p \<and> subscript (corpus ! k) ''chosen'' = Inr c \<and>
        sft ! k = JObj [(''prompt'', p), (''response'', c)])"
proof -
  assume "list_all valid_record corpus"
  from sft_dataset_valid [OF this]
  obtain sft where sft: "sft_dataset corpus = Inr sft" "length sft = length corpus"
    "\<forall>k<length corpus. \<exists>p c.
        subscript (corpus ! k) ''prompt'' = Inr p \<and> subscript (corpus ! k) ''chosen'' = Inr c \<and>
        sft ! k = JObj [(''prompt'', p), (''response'', c)]"
    by blast
  have "fst (save_datasets corpus w) = Inr ()"
    using sft(1) by (simp add: save_datasets_def Let_def)
  moreover have "files (snd (save_datasets corpus w)) OUTPUT_RM_FILE = Some (JArr corpus)"
    using sft(1) output_files_differ by (simp add: save_datasets_def Let_def write_file_def)
  moreover have "files (snd (save_datasets corpus w)) OUTPUT_SFT_FILE = Some (JArr sft)"
    using sft(1) by (simp add: save_datasets_def Let_def write_file_def)
  ultimately show ?thesis using sft(2,3) by blast
qed

theorem save_datasets_projection_witness:
  "list_all valid_record [sample_record, sample_record] \<and>
   (\<exists>sft. fst (save_datasets [sample_record, sample_record] empty_world) = Inr () \<and>
     files (snd (save_datasets [sample_record, sample_record] empty_world)) OUTPUT_RM_FILE =
       Some (JArr [sample_record, sample_record]) \<and>
     files (snd (save_datasets [sample_record, sample_record] empty_world)) OUTPUT_SFT_FILE =
       Some (JArr sft) \<and>
     length sft = 2 \<and>
     sft ! 1 = JObj [(''prompt'', JStr ''Did Vikings wear horned helmets in battle?''),
                     (''response'', JStr ''Absolutely not.'')])"
proof -
  have valid: "list_all valid_record [sample_record, sample_record]"
    by code_simp
  have p: "subscript sample_record ''prompt'' = Inr (JStr ''Did Vikings wear horned helmets in battle?'')"
    by code_simp
  have c: "subscript sample_record ''chosen'' = Inr (JStr ''Absolutely not.'')"
    by code_simp
  from save_datasets_projection [OF valid, of empty_world]
  obtain sft where sft: "fst (save_datasets [sample_record, sample_record] empty_world) = Inr ()"
    "files (snd (save_datasets [sample_record, sample_record] empty_world)) OUTPUT_RM_FILE =
       Some (JArr [sample_record, sample_record])"
    "files (snd (save_datasets [sample_record, sample_record] empty_world)) OUTPUT_SFT_FILE =
       Some (JArr sft)"
    "length sft = length [sample_record, sample_record]"
    "\<forall>k<length [sample_record, sample_record]. \<exists>p c.
        subscript ([sample_record, sample_record] ! k) ''prompt'' = Inr p \<and>
        subscript ([sample_record, sample_record] ! k) ''chosen'' = Inr c \<and>
        sft ! k = JObj [(''prompt'', p), (''response'', c)]"
    by blast
  have "\<exists>p c. subscript ([sample_record, sample_record] ! 1) ''prompt'' = Inr p \<and>
        subscript ([sample_record, sample_record] ! 1) ''chosen'' = Inr c \<and>
        sft ! 1 = JObj [(''prompt'', p), (''response'', c)]"
    using sft(5) [rule_format, of 1] by simp
  then have "sft ! 1 = JObj [(''prompt'', JStr ''Did Vikings wear horned helmets in battle?''),
                     (''response'', JStr ''Absolutely not.'')]"
    by (simp add: p c)
  with valid sft(1-4) show ?thesis by auto
qed

text \<open>
  Claim C4: there are runs of \<open>main\<close>, with the configured constants and no file on
  disk at the start, in which the corpus is accepted for saving, the first file is
  written, the projection then raises, and the second file is absent at the end. One
  run gathers 300 times the number 1, which is no mapping (\<^verbatim>\<open>TypeError\<close>); another
  gathers 300 empty objects, which lack the key \<^verbatim>\<open>prompt\<close> (\<^verbatim>\<open>KeyError\<close>).
\<close>

theorem save_partial_write:
  "(\<exists>e. fst (main default_config e empty_world) = Inl TypeError \<and>
        files (snd (main default_config e empty_world)) OUTPUT_RM_FILE =
          Some (JArr (replicate 300 (JInt 1))) \<and>
        files (snd (main default_config e empty_world)) OUTPUT_SFT_FILE = None) \<and>
   (\<exists>e. fst (main default_config e empty_world) = Inl (KeyError ''prompt'') \<and>
        files (snd (main default_config e empty_world)) OUTPUT_RM_FILE =
          Some (JArr (replicate 300 (JObj []))) \<and>
        files (snd (main default_config e empty_world)) OUTPUT_SFT_FILE = None)"
proof -
  have yes: "strip (lower ''y'') = ''y''"
    by code_simp
  have main_eq: "main default_config (constant_env content (Some ''y'')) empty_world =
      save_datasets (replicate 300 x) (world (accumulate 10 (constant_env content (Some ''y'')) 12 300
         (initial_state empty_world)))"
    if "sample_loads (clean_response content) = Some (JArr [x])" for content x
  proof -
    let ?e = "constant_env content (Some ''y'')"
    have "all_records (accumulate 10 ?e 12 300 (initial_state empty_world)) =
            concat (replicate 300 [x])"
      using accumulate_same_batch [of 10 ?e "JArr [x]" 12 300 "initial_state empty_world"]
        iteration_batch_constant [OF that]
      by (simp add: batch_accepted_def initial_state_def)
    also have "\<dots> = replicate 300 x"
      by (induction "300::nat") simp_all
    finally have recs: "all_records (accumulate 10 ?e 12 300 (initial_state empty_world)) =
        replicate 300 x" .
    have answer: "stdin_line ?e = Some ''y''"
      by (simp add: constant_env_def)
    have run: "run_accumulator default_config ?e empty_world =
        Inr (accumulate 10 ?e 12 300 (initial_state empty_world))"
      using run_accumulator_Inr [of default_config 12 ?e empty_world] delay_default
      by (simp add: default_config_def total_iterations_def)
    have small: "length (replicate 300 x) < min_records default_config"
      by (simp add: default_config_def)
    show ?thesis
      using small by (simp add: main_def run finish_def recs answer yes)
  qed
  have nofile: "files (world (accumulate 10 e 12 300 (initial_state empty_world))) = Map.empty" for e
    using accumulate_frame [of 10 e 12 300 "initial_state empty_world"]
    by (simp add: initial_state_def empty_world_def)
  have rep: "replicate 300 x = x # replicate 299 x" for x :: json
    by (simp add: numeral_eq_Suc)
  have l1: "sample_loads (clean_response ''[1]'') = Some (JArr [JInt 1])"
    by code_simp
  have l2: "sample_loads (clean_response ''[{}]'') = Some (JArr [JObj []])"
    by code_simp
  have s1: "sft_dataset (replicate 300 (JInt 1)) = Inl TypeError"
    by (simp add: rep sft_entry_def)
  have s2: "sft_dataset (replicate 300 (JObj [])) = Inl (KeyError ''prompt'')"
    by (simp add: rep sft_entry_def)
  have a: "fst (main default_config (constant_env ''[1]'' (Some ''y'')) empty_world) = Inl TypeError \<and>
        files (snd (main default_config (constant_env ''[1]'' (Some ''y'')) empty_world)) OUTPUT_RM_FILE =
          Some (JArr (replicate 300 (JInt 1))) \<and>
        files (snd (main default_config (constant_env ''[1]'' (Some ''y'')) empty_world)) OUTPUT_SFT_FILE = None"
    using output_files_differ
    by (simp add: main_eq [OF l1] save_datasets_def Let_def s1 write_file_def nofile)
  have b: "fst (main default_config (constant_env ''[{}]'' (Some ''y'')) empty_world) = Inl (KeyError ''prompt'') \<and>
        files (snd (main default_config (constant_env ''[{}]'' (Some ''y'')) empty_world)) OUTPUT_RM_FILE =
          Some (JArr (replicate 300 (JObj []))) \<and>
        files (snd (main default_config (constant_env ''[{}]'' (Some ''y'')) empty_world)) OUTPUT_SFT_FILE = None"
    using output_files_differ
    by (simp add: main_eq [OF l2] save_datasets_def Let_def s2 write_file_def nofile)
  from a b show ?thesis by blast
qed

end
